theory Spec2Isabelle
  imports Main "HOL-Library.Word"
begin

section \<open>The timecontrol interval timer\<close>

text \<open>
  A shallow embedding of the \<open>timecontrol\<close> class (\<open>timecontrol.h\<close>, \<open>timecontrol.cpp\<close>).

  \<^item> The C++ fixed-width integers are words: \<open>uint8_t\<close>, \<open>uint16_t\<close> and \<open>uint32_t\<close> are
    \<open>8 word\<close>, \<open>16 word\<close> and \<open>32 word\<close>; \<open>int32_t\<close> is a \<open>32 word\<close> read by \<open>sint\<close>.
  \<^item> The object is a record with one field per data member (the leading underscore of a
    member name is dropped).
  \<^item> \<open>millis()\<close> and \<open>micros()\<close> are reads of an external clock: every read that a member
    function performs is a parameter of its model, in the order of the reads.
  \<^item> The two callbacks are function pointers into user code. User code acts on a user
    state of type \<open>'e\<close>, threaded through every operation that may call back; a null
    pointer is \<open>None\<close>. User code is taken not to write to the timer object itself.
  \<^item> What C++ leaves undefined is an error value: an access to \<open>_elapsedTimes\<close> outside
    its bounds, a division by zero, an overflowing signed addition.
\<close>

type_synonym u8 = "8 word"
type_synonym u16 = "16 word"
type_synonym u32 = "32 word"
type_synonym i32 = "32 word"

datatype error = OutOfBounds | DivisionByZero | SignedOverflow

subsection \<open>Time constants\<close>

text \<open>
  \<^verbatim>\<open>const uint16_t SECONDS_PER_DAY = 86400;\<close>
  \<^verbatim>\<open>const uint16_t SECONDS_PER_HOUR = 3600;\<close>
  \<^verbatim>\<open>const uint8_t SECONDS_PER_MINUTE = 60;\<close>
  The initialisers are converted to the declared types, as words are.
\<close>

definition SECONDS_PER_DAY :: u16 where
  "SECONDS_PER_DAY = 86400"

definition SECONDS_PER_HOUR :: u16 where
  "SECONDS_PER_HOUR = 3600"

definition SECONDS_PER_MINUTE :: u8 where
  "SECONDS_PER_MINUTE = 60"

subsection \<open>The object\<close>

record 'e timecontrol =
  timelapse :: u32
  pMillis :: u32
  count :: u32
  state :: bool
  startTime :: u32
  repeatCount :: u32
  pMicros :: u32
  lastElapsedTime :: u32
  elapsedCallback :: "(u32 \<Rightarrow> 'e \<Rightarrow> 'e) option"
  useElapsedFirst :: bool
  elapsedTimes :: "u32 list"
  elapsedIndex :: u8
  callback :: "('e \<Rightarrow> 'e) option"

text \<open>\<^verbatim>\<open>if (f) f();\<close> and \<^verbatim>\<open>if (f) f(x);\<close> on the user state.\<close>

definition invoke :: "('e \<Rightarrow> 'e) option \<Rightarrow> 'e \<Rightarrow> 'e" where
  "invoke f e = (case f of None \<Rightarrow> e | Some g \<Rightarrow> g e)"

definition invoke1 :: "(u32 \<Rightarrow> 'e \<Rightarrow> 'e) option \<Rightarrow> u32 \<Rightarrow> 'e \<Rightarrow> 'e" where
  "invoke1 f x e = (case f of None \<Rightarrow> e | Some g \<Rightarrow> g x e)"

text \<open>
  The three constructors. \<open>ms\<close> is the value of \<open>millis()\<close> and \<open>us\<close> the value of
  \<open>micros()\<close> read during construction; \<open>memset\<close> clears the ten samples. The assignment
  \<open>_instance = this\<close> is the caller's to record: the interrupt handler below takes the
  instance as its argument.
\<close>

definition timecontrol0 :: "u32 \<Rightarrow> u32 \<Rightarrow> 'e timecontrol" where
  "timecontrol0 ms us =
     \<lparr>timelapse = 0, pMillis = ms, count = 0, state = True, startTime = ms,
      repeatCount = 0, pMicros = us, lastElapsedTime = 0, elapsedCallback = None,
      useElapsedFirst = False, elapsedTimes = replicate 10 0, elapsedIndex = 0,
      callback = None\<rparr>"

definition timecontrol1 :: "u32 \<Rightarrow> u32 \<Rightarrow> u32 \<Rightarrow> 'e timecontrol" where
  "timecontrol1 lapse ms us =
     \<lparr>timelapse = lapse, pMillis = ms, count = 0, state = True, startTime = ms,
      repeatCount = 0, pMicros = us, lastElapsedTime = 0, elapsedCallback = None,
      useElapsedFirst = False, elapsedTimes = replicate 10 0, elapsedIndex = 0,
      callback = None\<rparr>"

definition timecontrol3 :: "u32 \<Rightarrow> bool \<Rightarrow> u32 \<Rightarrow> u32 \<Rightarrow> u32 \<Rightarrow> 'e timecontrol" where
  "timecontrol3 lapse st previousMillis ms us =
     \<lparr>timelapse = lapse, pMillis = previousMillis, count = 0, state = st, startTime = ms,
      repeatCount = 0, pMicros = us, lastElapsedTime = 0, elapsedCallback = None,
      useElapsedFirst = False, elapsedTimes = replicate 10 0, elapsedIndex = 0,
      callback = None\<rparr>"

subsection \<open>Inline members of the header\<close>

definition stop :: "'e timecontrol \<Rightarrow> 'e timecontrol" where
  "stop t = t\<lparr>state := False\<rparr>"

definition resume :: "'e timecontrol \<Rightarrow> 'e timecontrol" where
  "resume t = t\<lparr>state := True\<rparr>"

definition resumeFromInterrupt :: "'e timecontrol \<Rightarrow> 'e timecontrol" where
  "resumeFromInterrupt t = (if \<not> state t then resume t else t)"

definition setCallback :: "('e \<Rightarrow> 'e) option \<Rightarrow> 'e timecontrol \<Rightarrow> 'e timecontrol" where
  "setCallback cb t = t\<lparr>callback := cb\<rparr>"

definition setElapsedCallback ::
  "(u32 \<Rightarrow> 'e \<Rightarrow> 'e) option \<Rightarrow> 'e timecontrol \<Rightarrow> 'e timecontrol" where
  "setElapsedCallback cb t = t\<lparr>elapsedCallback := cb\<rparr>"

definition setPriorityCallback :: "bool \<Rightarrow> 'e timecontrol \<Rightarrow> 'e timecontrol" where
  "setPriorityCallback b t = t\<lparr>useElapsedFirst := b\<rparr>"

definition setRepeatCount :: "u32 \<Rightarrow> 'e timecontrol \<Rightarrow> 'e timecontrol" where
  "setRepeatCount n t = t\<lparr>repeatCount := n\<rparr>"

definition setTimelapse :: "u32 \<Rightarrow> 'e timecontrol \<Rightarrow> 'e timecontrol" where
  "setTimelapse lapse t = t\<lparr>timelapse := lapse\<rparr>"

text \<open>\<open>reset()\<close>: \<open>ms\<close> and \<open>us\<close> are its reads of \<open>millis()\<close> and \<open>micros()\<close>.\<close>

definition reset :: "u32 \<Rightarrow> u32 \<Rightarrow> 'e timecontrol \<Rightarrow> 'e timecontrol" where
  "reset ms us t =
     (let t1 = t\<lparr>pMillis := ms\<rparr>;
          t2 = t1\<lparr>pMicros := us\<rparr>;
          t3 = t2\<lparr>count := 0\<rparr>
      in t3\<lparr>lastElapsedTime := 0\<rparr>)"

text \<open>\<open>getElapsedTime()\<close> reads \<open>millis()\<close> only when the timer runs.\<close>

definition getElapsedTime :: "u32 \<Rightarrow> 'e timecontrol \<Rightarrow> u32" where
  "getElapsedTime ms t = (if state t then ms - pMillis t else 0)"

text \<open>
  \<open>adjustTimelapse(int32_t adjustment)\<close>. The cast \<open>(int32_t)_timelapse\<close> reads the same
  32 bits as a two's complement number; the sum is computed in \<open>int32_t\<close>, where an
  overflow is undefined; a positive sum is stored back as \<open>uint32_t\<close>.
\<close>

definition adjustTimelapse :: "i32 \<Rightarrow> 'e timecontrol \<Rightarrow> error + 'e timecontrol" where
  "adjustTimelapse adjustment t =
     (let newTimelapse = sint (timelapse t) + sint adjustment
      in if newTimelapse < - (2 ^ 31) \<or> 2 ^ 31 \<le> newTimelapse then Inl SignedOverflow
         else Inr (t\<lparr>timelapse := (if newTimelapse > 0 then word_of_int newTimelapse else 0)\<rparr>))"

subsection \<open>Interval detection\<close>

text \<open>
  \<open>elapsed()\<close>: \<open>ms\<close> is the read of \<open>millis()\<close>, \<open>us\<close> the read of \<open>micros()\<close> made when
  the interval has passed. \<open>_elapsedIndex + 1\<close> is computed in \<open>int\<close> and reduced modulo 10
  before it is stored in the \<open>uint8_t\<close>.
\<close>

definition elapsed ::
  "u32 \<Rightarrow> u32 \<Rightarrow> 'e timecontrol \<Rightarrow> 'e \<Rightarrow> error + (bool \<times> 'e timecontrol \<times> 'e)" where
  "elapsed ms us t e =
     (if \<not> state t then Inr (False, t, e)
      else if timelapse t \<le> ms - pMillis t then
        (let t1 = t\<lparr>lastElapsedTime := ms - pMillis t\<rparr>;
             t2 = t1\<lparr>pMillis := ms\<rparr>;
             t3 = t2\<lparr>pMicros := us\<rparr>
         in if unat (elapsedIndex t3) < length (elapsedTimes t3) then
              (let t4 = t3\<lparr>elapsedTimes :=
                          (elapsedTimes t3)[unat (elapsedIndex t3) := lastElapsedTime t3]\<rparr>;
                   t5 = t4\<lparr>elapsedIndex := of_nat ((unat (elapsedIndex t4) + 1) mod 10)\<rparr>;
                   t6 = t5\<lparr>count := count t5 + 1\<rparr>;
                   e' = (if useElapsedFirst t6
                         then invoke (callback t6)
                                (invoke1 (elapsedCallback t6) (lastElapsedTime t6) e)
                         else invoke1 (elapsedCallback t6) (lastElapsedTime t6)
                                (invoke (callback t6) e));
                   t7 = (if 0 < repeatCount t6 \<and> repeatCount t6 \<le> count t6
                         then stop t6 else t6)
               in Inr (True, t7, e'))
            else Inl OutOfBounds)
      else Inr (False, t, e))"

text \<open>
  \<open>elapsedSeconds()\<close> reads \<open>millis()\<close> twice: \<open>ms1\<close> for \<open>currentSec\<close> and, when the
  comparison holds, \<open>ms2\<close> for the new \<open>pMillis\<close>.
\<close>

definition elapsedSeconds ::
  "u32 \<Rightarrow> u32 \<Rightarrow> u32 \<Rightarrow> 'e timecontrol \<Rightarrow> 'e \<Rightarrow> error + (bool \<times> 'e timecontrol \<times> 'e)" where
  "elapsedSeconds ms1 ms2 us t e =
     (if \<not> state t then Inr (False, t, e)
      else
        (let currentSec = ms1 div 1000;
             previousSec = pMillis t div 1000;
             timelapseSec = timelapse t div 1000
         in if timelapseSec \<le> currentSec - previousSec then
              (let t1 = t\<lparr>pMillis := ms2\<rparr>;
                   t2 = t1\<lparr>pMicros := us\<rparr>;
                   t3 = t2\<lparr>lastElapsedTime := (currentSec - previousSec) * 1000\<rparr>
               in if unat (elapsedIndex t3) < length (elapsedTimes t3) then
                    (let t4 = t3\<lparr>elapsedTimes :=
                                (elapsedTimes t3)[unat (elapsedIndex t3) := lastElapsedTime t3]\<rparr>;
                         t5 = t4\<lparr>elapsedIndex := of_nat ((unat (elapsedIndex t4) + 1) mod 10)\<rparr>;
                         t6 = t5\<lparr>count := count t5 + 1\<rparr>;
                         e' = (if useElapsedFirst t6
                               then invoke (callback t6)
                                      (invoke1 (elapsedCallback t6) (lastElapsedTime t6) e)
                               else invoke1 (elapsedCallback t6) (lastElapsedTime t6)
                                      (invoke (callback t6) e));
                         t7 = (if 0 < repeatCount t6 \<and> repeatCount t6 \<le> count t6
                               then stop t6 else t6)
                     in Inr (True, t7, e'))
                  else Inl OutOfBounds)
            else Inr (False, t, e)))"

text \<open>
  \<open>remainingTime()\<close>: \<open>ms1\<close> and \<open>us\<close> are the reads of the inner \<open>elapsed()\<close>, \<open>ms2\<close> the
  read that follows it.
\<close>

definition remainingTime ::
  "u32 \<Rightarrow> u32 \<Rightarrow> u32 \<Rightarrow> 'e timecontrol \<Rightarrow> 'e \<Rightarrow> error + (u32 \<times> 'e timecontrol \<times> 'e)" where
  "remainingTime ms1 us ms2 t e =
     (if \<not> state t then Inr (0, t, e)
      else case elapsed ms1 us t e of
             Inl err \<Rightarrow> Inl err
           | Inr (fired, t', e') \<Rightarrow>
               if fired then Inr (0, t', e')
               else (let elapsedTime = ms2 - pMillis t'
                     in Inr (if elapsedTime < timelapse t' then timelapse t' - elapsedTime else 0,
                             t', e')))"

text \<open>
  \<open>countdown(duration, callback)\<close>: \<open>ms1\<close> is the read of \<open>millis()\<close> made when the timer
  is not running, \<open>ms2\<close> the read that every call makes.
\<close>

definition countdown ::
  "u32 \<Rightarrow> ('e \<Rightarrow> 'e) option \<Rightarrow> u32 \<Rightarrow> u32 \<Rightarrow> 'e timecontrol \<Rightarrow> 'e \<Rightarrow> u32 \<times> 'e timecontrol \<times> 'e" where
  "countdown duration cb ms1 ms2 t e =
     (let t1 = (if \<not> state t
                then t\<lparr>pMillis := ms1, timelapse := duration, state := True\<rparr>
                else t);
          elapsedTime = ms2 - pMillis t1
      in if timelapse t1 \<le> elapsedTime then (0, t1\<lparr>state := False\<rparr>, invoke cb e)
         else (timelapse t1 - elapsedTime, t1, e))"

subsection \<open>Interrupt dispatch\<close>

text \<open>
  \<open>interruptHandler()\<close> is static and works on \<open>_instance\<close>, here its first argument after
  the clock reads (\<open>None\<close> is the null pointer). \<open>ms1\<close> is the read made by
  \<open>getElapsedTime()\<close>, \<open>ms2\<close> the read stored in \<open>pMillis\<close>, \<open>us\<close> the read of \<open>micros()\<close>.
\<close>

definition interruptHandler ::
  "u32 \<Rightarrow> u32 \<Rightarrow> u32 \<Rightarrow> 'e timecontrol option \<Rightarrow> 'e \<Rightarrow> error + ('e timecontrol option \<times> 'e)" where
  "interruptHandler ms1 ms2 us inst e =
     (case inst of
        None \<Rightarrow> Inr (None, e)
      | Some t \<Rightarrow>
          if callback t = None then Inr (Some t, e)
          else
            (let t1 = t\<lparr>count := count t + 1\<rparr>;
                 t2 = t1\<lparr>lastElapsedTime := getElapsedTime ms1 t1\<rparr>;
                 t3 = t2\<lparr>pMillis := ms2\<rparr>;
                 t4 = t3\<lparr>pMicros := us\<rparr>;
                 e' = (if useElapsedFirst t4
                       then invoke (callback t4)
                              (invoke1 (elapsedCallback t4) (lastElapsedTime t4) e)
                       else invoke1 (elapsedCallback t4) (lastElapsedTime t4)
                              (invoke (callback t4) e))
             in if unat (elapsedIndex t4) < length (elapsedTimes t4) then
                  (let t5 = t4\<lparr>elapsedTimes :=
                              (elapsedTimes t4)[unat (elapsedIndex t4) := lastElapsedTime t4]\<rparr>;
                       t6 = t5\<lparr>elapsedIndex := of_nat ((unat (elapsedIndex t5) + 1) mod 10)\<rparr>
                   in Inr (Some (if 0 < repeatCount t6 \<and> repeatCount t6 \<le> count t6
                                 then stop t6 else resumeFromInterrupt t6), e'))
                else Inl OutOfBounds))"

subsection \<open>Formatting\<close>

text \<open>
  \<open>snprintf(_buffer, sizeof(_buffer), ...)\<close> with the conversions \<open>%d\<close> and \<open>%02d\<close>: the
  arguments are promoted to \<open>int\<close>, printed in decimal, and at most \<open>size - 1\<close> characters
  are stored. \<open>hours\<close>, \<open>minutes\<close> and \<open>seconds\<close> are \<open>uint8_t\<close>; \<open>days\<close> is \<open>uint16_t\<close>,
  and the model takes \<open>int\<close> to be wider than 16 bits, so that its promotion keeps the
  value.
\<close>

fun dec_digits :: "nat \<Rightarrow> string" where
  "dec_digits n =
     (if n < 10 then [''0123456789'' ! n]
      else dec_digits (n div 10) @ [''0123456789'' ! (n mod 10)])"

definition fmt_d :: "int \<Rightarrow> string" where
  "fmt_d i = (if i < 0 then CHR ''-'' # dec_digits (nat (- i)) else dec_digits (nat i))"

definition fmt_02d :: "int \<Rightarrow> string" where
  "fmt_02d i = (let s = fmt_d i in if length s < 2 then replicate (2 - length s) CHR ''0'' @ s else s)"

definition snprintf_store :: "nat \<Rightarrow> string \<Rightarrow> string" where
  "snprintf_store bufsize s = take (bufsize - 1) s"

definition secToTime :: "u32 \<Rightarrow> string" where
  "secToTime sec =
     (let days = (ucast (sec div ucast SECONDS_PER_DAY) :: u16);
          hours = (ucast ((sec mod ucast SECONDS_PER_DAY) div ucast SECONDS_PER_HOUR) :: u8);
          minutes = (ucast ((sec mod ucast SECONDS_PER_HOUR) div ucast SECONDS_PER_MINUTE) :: u8);
          seconds = (ucast (sec mod ucast SECONDS_PER_MINUTE) :: u8)
      in if 0 < days
         then snprintf_store 16
                (fmt_d (uint days) @ '':'' @ fmt_02d (uint hours) @ '':'' @
                 fmt_02d (uint minutes) @ '':'' @ fmt_02d (uint seconds))
         else snprintf_store 16
                (fmt_02d (uint hours) @ '':'' @ fmt_02d (uint minutes) @ '':'' @
                 fmt_02d (uint seconds)))"

subsection \<open>Statistics\<close>

text \<open>
  \<open>getAverageElapsedTime(samples)\<close>. \<open>avg_sum\<close> is the \<open>for\<close> loop from counter \<open>i\<close> with
  the running \<open>sum\<close> (here \<open>acc\<close>). The index expression
  \<open>(_elapsedIndex - 1 - i + 10) % 10\<close> is computed in \<open>int\<close>, where \<open>%\<close> truncates towards
  zero (\<open>c_rem\<close>), and stored in a \<open>uint8_t\<close>. \<open>min\<close> is the Arduino macro
  \<open>((a)<(b)?(a):(b))\<close>, evaluated in \<open>uint32_t\<close> and stored in the \<open>uint8_t\<close>
  \<open>validSamples\<close>.
\<close>

definition c_rem :: "int \<Rightarrow> int \<Rightarrow> int" where
  "c_rem a b = (if a < 0 then - ((- a) mod \<bar>b\<bar>) else a mod \<bar>b\<bar>)"

function avg_sum :: "u32 list \<Rightarrow> u8 \<Rightarrow> u8 \<Rightarrow> u8 \<Rightarrow> u32 \<Rightarrow> error + u32" where
  "avg_sum ring index validSamples i acc =
     (if i < validSamples then
        (let idx = (word_of_int (c_rem (uint index - 1 - uint i + 10) 10) :: u8)
         in if unat idx < length ring
            then avg_sum ring index validSamples (i + 1) (acc + ring ! unat idx)
            else Inl OutOfBounds)
      else Inr acc)"
  by pat_completeness auto
termination
proof (relation "measure (\<lambda>(ring, index, validSamples, i, acc). unat validSamples - unat i)")
  show "wf (measure (\<lambda>(ring, index, validSamples, i, acc). unat validSamples - unat i))"
    by simp
next
  fix ring :: "u32 list" and index validSamples i :: u8 and acc :: u32 and idx :: u8
  assume lt: "i < validSamples"
  then have "unat i < unat validSamples"
    by (simp add: word_less_nat_alt)
  moreover have "unat validSamples < 2 ^ 8"
    using unsigned_less [of validSamples] by simp
  ultimately have "unat i + unat (1 :: u8) < 2 ^ LENGTH(8)"
    by simp
  then have "unat (i + 1) = unat i + 1"
    using unat_add_lem [of i 1] by simp
  moreover note \<open>unat i < unat validSamples\<close>
  ultimately show "((ring, index, validSamples, i + 1, acc + ring ! unat idx),
           (ring, index, validSamples, i, acc))
         \<in> measure (\<lambda>(ring, index, validSamples, i, acc). unat validSamples - unat i)"
    by simp
qed

definition getAverageElapsedTime :: "u8 \<Rightarrow> 'e timecontrol \<Rightarrow> error + u32" where
  "getAverageElapsedTime samples0 t =
     (let samples = (if 10 < samples0 then 10 else samples0)
      in if count t = 0 then Inr 0
         else
           (let validSamples =
                  (ucast (if (ucast samples :: u32) < count t then ucast samples else count t) :: u8)
            in case avg_sum (elapsedTimes t) (elapsedIndex t) validSamples 0 0 of
                 Inl err \<Rightarrow> Inl err
               | Inr acc \<Rightarrow>
                   if validSamples = 0 then Inl DivisionByZero
                   else Inr (acc div ucast validSamples)))"

text \<open>
  The representation invariant of the sample ring: ten samples, and a write index below
  ten. Every constructor establishes it and every operation modelled here keeps it.
\<close>

definition ring_inv :: "'e timecontrol \<Rightarrow> bool" where
  "ring_inv t \<longleftrightarrow> length (elapsedTimes t) = 10 \<and> elapsedIndex t < 10"

subsection \<open>The example sketches\<close>

text \<open>
  The user code of the example sketches, acting on a log of the calls it received:
  \<open>simpleAction\<close> stands for a zero-argument callback (\<open>simpleAction\<close>, \<open>finished\<close>,
  \<open>countEvent\<close>), \<open>showTime\<close> for the callback that takes the duration.
\<close>

datatype call = Called | CalledWith u32

definition simpleAction :: "call list \<Rightarrow> call list" where
  "simpleAction log = log @ [Called]"

definition showTime :: "u32 \<Rightarrow> call list \<Rightarrow> call list" where
  "showTime d log = log @ [CalledWith d]"

text \<open>
  \<^verbatim>\<open>timecontrol timer(1000); timer.setCallback(simpleAction);\<close>
  \<^verbatim>\<open>timer.setElapsedCallback(showTime); timer.setPriorityCallback(true);\<close>
\<close>

definition callbacks_sketch :: "u32 \<Rightarrow> u32 \<Rightarrow> call list timecontrol" where
  "callbacks_sketch ms us =
     setPriorityCallback True
       (setElapsedCallback (Some showTime)
          (setCallback (Some simpleAction) (timecontrol1 1000 ms us)))"

text \<open>\<^verbatim>\<open>timecontrol ledTimer(1000); ledTimer.setRepeatCount(3);\<close>\<close>

definition repeat_sketch :: "u32 \<Rightarrow> u32 \<Rightarrow> call list timecontrol" where
  "repeat_sketch ms us = setRepeatCount 3 (timecontrol1 1000 ms us)"

text \<open>\<^verbatim>\<open>timecontrol countdownTimer;\<close>\<close>

definition countdown_sketch :: "u32 \<Rightarrow> u32 \<Rightarrow> call list timecontrol" where
  "countdown_sketch ms us = timecontrol0 ms us"

text \<open>
  The interrupt sketch with the other callback:
  \<^verbatim>\<open>timecontrol interruptTimer; interruptTimer.setElapsedCallback(showTime);\<close>
\<close>

definition duration_only_sketch :: "u32 \<Rightarrow> u32 \<Rightarrow> call list timecontrol" where
  "duration_only_sketch ms us = setElapsedCallback (Some showTime) (timecontrol0 ms us)"

section \<open>Properties\<close>

subsection \<open>The sample ring\<close>

lemma replicate_ten: "replicate 10 x = [x, x, x, x, x, x, x, x, x, x]"
  by (simp add: eval_nat_numeral)

lemma ring_index_step:
  fixes i :: u8
  assumes "i < 10"
  shows "(of_nat ((unat i + 1) mod 10) :: u8) = (i + 1) mod 10"
proof -
  from assms have lt: "unat i < 10"
    by (simp add: word_less_nat_alt)
  then have "unat (i + 1) = unat i + 1"
    using unat_add_lem [of i 1] by simp
  then have "unat ((i + 1) mod 10) = (unat i + 1) mod 10"
    by (simp add: unat_mod)
  moreover have "unat (of_nat ((unat i + 1) mod 10) :: u8) = (unat i + 1) mod 10"
    by (simp add: unat_of_nat)
  ultimately show ?thesis
    by (simp add: word_unat_eq_iff)
qed

lemma ring_index_bound: "(of_nat ((unat (i :: u8) + 1) mod 10) :: u8) < 10"
proof -
  have "(unat i + 1) mod 10 < 10"
    by simp
  then show ?thesis
    by (simp add: word_less_nat_alt unat_of_nat)
qed

lemma ring_inv_constructors:
  "ring_inv (timecontrol0 ms us)"
  "ring_inv (timecontrol1 lapse ms us)"
  "ring_inv (timecontrol3 lapse st previousMillis ms us)"
  by (simp_all add: ring_inv_def timecontrol0_def timecontrol1_def timecontrol3_def)

subsection \<open>The three outcomes of \<open>elapsed()\<close>\<close>

lemma elapsed_not_running:
  "\<not> state t \<Longrightarrow> elapsed ms us t e = Inr (False, t, e)"
  by (simp add: elapsed_def)

lemma elapsed_not_due:
  "ms - pMillis t < timelapse t \<Longrightarrow> elapsed ms us t e = Inr (False, t, e)"
  by (simp add: elapsed_def not_le [symmetric])

lemma elapsed_due:
  assumes "ring_inv t" "state t" "timelapse t \<le> ms - pMillis t"
  shows "elapsed ms us t e =
    Inr (True,
         t\<lparr>lastElapsedTime := ms - pMillis t, pMillis := ms, pMicros := us,
           elapsedTimes := (elapsedTimes t)[unat (elapsedIndex t) := ms - pMillis t],
           elapsedIndex := (elapsedIndex t + 1) mod 10,
           count := count t + 1,
           state := \<not> (0 < repeatCount t \<and> repeatCount t \<le> count t + 1)\<rparr>,
         if useElapsedFirst t
         then invoke (callback t) (invoke1 (elapsedCallback t) (ms - pMillis t) e)
         else invoke1 (elapsedCallback t) (ms - pMillis t) (invoke (callback t) e))"
proof -
  from assms(1) have len: "unat (elapsedIndex t) < length (elapsedTimes t)"
    by (simp add: ring_inv_def word_less_nat_alt)
  from assms(1)
  have idx: "(of_nat ((unat (elapsedIndex t) + 1) mod 10) :: u8) = (elapsedIndex t + 1) mod 10"
    using ring_index_step [of "elapsedIndex t"] by (simp add: ring_inv_def)
  show ?thesis
    using assms(2,3) len idx by (simp add: elapsed_def Let_def stop_def)
qed

lemma elapsed_due_state:
  assumes "ring_inv t" "state t" "timelapse t \<le> ms - pMillis t"
  shows "\<exists>t' e'. elapsed ms us t e = Inr (True, t', e') \<and> ring_inv t' \<and>
           count t' = count t + 1 \<and> repeatCount t' = repeatCount t \<and>
           timelapse t' = timelapse t \<and> pMillis t' = ms \<and>
           (state t' \<longleftrightarrow> \<not> (0 < repeatCount t \<and> repeatCount t \<le> count t + 1))"
proof -
  have "(elapsedIndex t + 1) mod 10 < 10"
    by (rule word_mod_less_divisor) simp
  with assms(1) show ?thesis
    by (simp add: elapsed_due [OF assms] ring_inv_def)
qed

subsection \<open>The seconds variant\<close>

lemma elapsedSeconds_due:
  assumes "ring_inv t" "state t"
    "timelapse t div 1000 \<le> ms1 div 1000 - pMillis t div 1000"
  shows "elapsedSeconds ms1 ms2 us t e =
    Inr (True,
         t\<lparr>pMillis := ms2, pMicros := us,
           lastElapsedTime := (ms1 div 1000 - pMillis t div 1000) * 1000,
           elapsedTimes := (elapsedTimes t)[unat (elapsedIndex t) :=
                             (ms1 div 1000 - pMillis t div 1000) * 1000],
           elapsedIndex := (elapsedIndex t + 1) mod 10,
           count := count t + 1,
           state := \<not> (0 < repeatCount t \<and> repeatCount t \<le> count t + 1)\<rparr>,
         if useElapsedFirst t
         then invoke (callback t)
                (invoke1 (elapsedCallback t) ((ms1 div 1000 - pMillis t div 1000) * 1000) e)
         else invoke1 (elapsedCallback t) ((ms1 div 1000 - pMillis t div 1000) * 1000)
                (invoke (callback t) e))"
proof -
  from assms(1) have len: "unat (elapsedIndex t) < length (elapsedTimes t)"
    by (simp add: ring_inv_def word_less_nat_alt)
  from assms(1)
  have idx: "(of_nat ((unat (elapsedIndex t) + 1) mod 10) :: u8) = (elapsedIndex t + 1) mod 10"
    using ring_index_step [of "elapsedIndex t"] by (simp add: ring_inv_def)
  show ?thesis
    using assms(2,3) len idx by (simp add: elapsedSeconds_def Let_def stop_def)
qed

lemma subsecond_threshold:
  fixes lapse :: u32
  assumes "lapse < 1000"
  shows "lapse div 1000 = 0"
proof -
  from assms have "unat lapse < 1000"
    by (simp add: word_less_nat_alt)
  then have "unat (lapse div 1000) = 0"
    by (simp add: unat_div)
  then show ?thesis
    by (simp add: unat_eq_zero)
qed

lemma whole_seconds:
  fixes m p :: u32
  assumes "p \<le> m"
  shows "1000 dvd unat ((m div 1000 - p div 1000) * 1000)"
proof -
  from assms have le: "unat p \<le> unat m"
    by (simp add: word_le_nat_alt)
  have m: "unat (m div 1000) = unat m div 1000" and p: "unat (p div 1000) = unat p div 1000"
    by (simp_all add: unat_div)
  from le have "unat p div 1000 \<le> unat m div 1000"
    by (rule div_le_mono)
  then have "p div 1000 \<le> m div 1000"
    by (simp add: word_le_nat_alt m p)
  then have d: "unat (m div 1000 - p div 1000) = unat m div 1000 - unat p div 1000"
    by (simp add: unat_sub m p)
  have "unat m < 2 ^ 32"
    using unsigned_less [of m] by simp
  then have "unat m div 1000 \<le> 4294967"
    by simp
  with d have "unat (m div 1000 - p div 1000) * unat (1000 :: u32) < 2 ^ LENGTH(32)"
    by simp
  then have "unat ((m div 1000 - p div 1000) * 1000) = unat (m div 1000 - p div 1000) * unat (1000 :: u32)"
    by (simp only: unat_mult_lem)
  then show ?thesis by simp
qed

subsection \<open>The interrupt handler and \<open>remainingTime()\<close>\<close>

lemma interruptHandler_no_callback:
  "callback t = None \<Longrightarrow> interruptHandler msA msB us (Some t) e = Inr (Some t, e)"
  by (simp add: interruptHandler_def)

lemma interruptHandler_fire:
  assumes "ring_inv t" "callback t \<noteq> None"
  shows "interruptHandler msA msB us (Some t) e =
    Inr (Some (t\<lparr>count := count t + 1,
                 lastElapsedTime := (if state t then msA - pMillis t else 0),
                 pMillis := msB, pMicros := us,
                 elapsedTimes := (elapsedTimes t)[unat (elapsedIndex t) :=
                                   (if state t then msA - pMillis t else 0)],
                 elapsedIndex := (elapsedIndex t + 1) mod 10,
                 state := \<not> (0 < repeatCount t \<and> repeatCount t \<le> count t + 1)\<rparr>),
         if useElapsedFirst t
         then invoke (callback t)
                (invoke1 (elapsedCallback t) (if state t then msA - pMillis t else 0) e)
         else invoke1 (elapsedCallback t) (if state t then msA - pMillis t else 0)
                (invoke (callback t) e))"
proof -
  from assms(1) have len: "unat (elapsedIndex t) < length (elapsedTimes t)"
    by (simp add: ring_inv_def word_less_nat_alt)
  from assms(1)
  have idx: "(of_nat ((unat (elapsedIndex t) + 1) mod 10) :: u8) = (elapsedIndex t + 1) mod 10"
    using ring_index_step [of "elapsedIndex t"] by (simp add: ring_inv_def)
  from assms(2) obtain f where "callback t = Some f"
    by blast
  then show ?thesis
    using len idx
    by (simp add: interruptHandler_def Let_def stop_def resumeFromInterrupt_def resume_def
        getElapsedTime_def)
qed

lemma remainingTime_paused:
  "\<not> state t \<Longrightarrow> remainingTime msA us msB t e = Inr (0, t, e)"
  by (simp add: remainingTime_def)

lemma remainingTime_crossing:
  assumes "state t" "elapsed msA us t e = Inr (True, t', e')"
  shows "remainingTime msA us msB t e = Inr (0, t', e')"
  using assms by (simp add: remainingTime_def)

lemma remainingTime_not_due:
  assumes "state t" "msA - pMillis t < timelapse t"
  shows "remainingTime msA us msB t e =
    Inr (if msB - pMillis t < timelapse t then timelapse t - (msB - pMillis t) else 0, t, e)"
  using assms by (simp add: remainingTime_def elapsed_not_due Let_def)

subsection \<open>The operations keep the ring invariant\<close>

lemma ring_inv_elapsed:
  "ring_inv t \<Longrightarrow> elapsed ms us t e = Inr (fired, t', e') \<Longrightarrow> ring_inv t'"
  using ring_index_bound [of "elapsedIndex t"]
  by (auto simp add: elapsed_def Let_def ring_inv_def stop_def split: if_splits)

lemma ring_inv_elapsedSeconds:
  "ring_inv t \<Longrightarrow> elapsedSeconds msA msB us t e = Inr (fired, t', e') \<Longrightarrow> ring_inv t'"
  using ring_index_bound [of "elapsedIndex t"]
  by (auto simp add: elapsedSeconds_def Let_def ring_inv_def stop_def split: if_splits)

lemma ring_inv_remainingTime:
  "ring_inv t \<Longrightarrow> remainingTime msA us msB t e = Inr (r, t', e') \<Longrightarrow> ring_inv t'"
  by (auto simp add: remainingTime_def Let_def split: if_splits sum.splits dest: ring_inv_elapsed)

lemma ring_inv_interruptHandler:
  "ring_inv t \<Longrightarrow> interruptHandler msA msB us (Some t) e = Inr (Some t', e') \<Longrightarrow> ring_inv t'"
  using ring_index_bound [of "elapsedIndex t"]
  by (auto simp add: interruptHandler_def Let_def ring_inv_def stop_def resumeFromInterrupt_def
      resume_def split: if_splits)

lemma ring_inv_countdown:
  "ring_inv t \<Longrightarrow> countdown duration cb msA msB t e = (r, t', e') \<Longrightarrow> ring_inv t'"
  by (auto simp add: countdown_def Let_def ring_inv_def split: if_splits)

lemma ring_inv_members:
  "ring_inv (stop t) = ring_inv t"
  "ring_inv (resume t) = ring_inv t"
  "ring_inv (setCallback cb t) = ring_inv t"
  "ring_inv (setElapsedCallback ecb t) = ring_inv t"
  "ring_inv (setPriorityCallback b t) = ring_inv t"
  "ring_inv (setRepeatCount n t) = ring_inv t"
  "ring_inv (setTimelapse lapse t) = ring_inv t"
  "ring_inv (reset ms us t) = ring_inv t"
  by (simp_all add: ring_inv_def stop_def resume_def setCallback_def setElapsedCallback_def
      setPriorityCallback_def setRepeatCount_def setTimelapse_def reset_def Let_def)

lemma ring_inv_adjustTimelapse:
  "ring_inv t \<Longrightarrow> adjustTimelapse adjustment t = Inr t' \<Longrightarrow> ring_inv t'"
  by (auto simp add: adjustTimelapse_def Let_def ring_inv_def split: if_splits)

subsection \<open>Formatting\<close>

text \<open>
  Claim C1. \<open>secToTime(sec)\<close> is to print \<open>D:HH:MM:SS\<close> with \<open>D = sec / 86400\<close>, so that
  \<open>secToTime(90061)\<close> is \<open>1:01:01:01\<close>. The constant \<open>SECONDS_PER_DAY\<close> is declared
  \<open>uint16_t\<close> and holds \<open>86400 mod 65536 = 20864\<close>: the code divides by that, and
  \<open>secToTime(90061)\<close> is \<open>4:01:01:01\<close>. \<open>secToTime(3661)\<close> is \<open>01:01:01\<close>, as claimed.
\<close>

theorem secToTime_day_constant_truncated:
  "SECONDS_PER_DAY = 20864 \<and> secToTime 90061 = ''4:01:01:01'' \<and>
   secToTime 90061 \<noteq> ''1:01:01:01'' \<and> secToTime 3661 = ''01:01:01''"
  by (simp add: secToTime_def SECONDS_PER_DAY_def SECONDS_PER_HOUR_def SECONDS_PER_MINUTE_def
      snprintf_store_def fmt_d_def fmt_02d_def Let_def)

subsection \<open>Statistics\<close>

lemma ring_slot_in_bounds:
  fixes index i :: u8
  assumes "i < 10"
  shows "unat (word_of_int (c_rem (uint index - 1 - uint i + 10) 10) :: u8) < 10"
proof -
  from assms have "uint i < 10"
    by (simp add: word_less_def)
  moreover have "0 \<le> uint index"
    by simp
  ultimately have nonneg: "0 \<le> uint index - 1 - uint i + 10"
    by linarith
  then have r: "c_rem (uint index - 1 - uint i + 10) 10 = (uint index - 1 - uint i + 10) mod 10"
    by (simp add: c_rem_def)
  have "0 \<le> (uint index - 1 - uint i + 10) mod 10" "(uint index - 1 - uint i + 10) mod 10 < 10"
    by simp_all
  then have "uint (word_of_int ((uint index - 1 - uint i + 10) mod 10) :: u8) < 10"
    by (simp add: uint_word_of_int take_bit_int_eq_self)
  then have "(word_of_int ((uint index - 1 - uint i + 10) mod 10) :: u8) < 10"
    by (simp add: word_less_def)
  then have "unat (word_of_int ((uint index - 1 - uint i + 10) mod 10) :: u8) < 10"
    by (simp add: word_less_nat_alt)
  then show ?thesis
    by (simp only: r)
qed

lemma avg_sum_total:
  assumes "length ring = 10" "validSamples \<le> 10"
  shows "\<exists>s. avg_sum ring index validSamples i acc = Inr s"
  using assms
proof (induction ring index validSamples i acc rule: avg_sum.induct)
  case (1 ring index validSamples i acc)
  show ?case
  proof (cases "i < validSamples")
    case False
    then show ?thesis by simp
  next
    case True
    with "1.prems"(2) have "i < 10"
      by simp
    then have b: "unat (word_of_int (c_rem (uint index - 1 - uint i + 10) 10) :: u8) < length ring"
      using ring_slot_in_bounds [of i index] "1.prems"(1) by simp
    with True "1.IH" [OF True refl b "1.prems"] show ?thesis
      by (simp add: Let_def del: avg_sum.simps add: avg_sum.simps [of ring index validSamples i acc])
  qed
qed

lemma valid_samples_bound:
  fixes samples :: u8 and n :: u32
  assumes "samples \<le> 10" "n \<noteq> 0"
  shows "(ucast (if (ucast samples :: u32) < n then ucast samples else n) :: u8) \<le> 10 \<and>
         ((ucast (if (ucast samples :: u32) < n then ucast samples else n) :: u8) = 0
            \<longleftrightarrow> samples = 0)"
proof (cases "(ucast samples :: u32) < n")
  case True
  have "(ucast (ucast samples :: u32) :: u8) = samples"
    by (rule ucast_up_ucast_id) (simp add: is_up)
  with True assms(1) show ?thesis by simp
next
  case False
  from assms(1) have s: "unat samples \<le> 10"
    by (simp add: word_le_nat_alt)
  have us: "unat (ucast samples :: u32) = unat samples"
    by (simp add: unsigned_ucast_eq take_bit_nat_eq_self unsigned_less [of samples, THEN less_trans])
  from False have "unat n \<le> unat samples"
    by (simp add: word_less_nat_alt us not_less)
  with s have n: "unat n \<le> 10"
    by simp
  then have un: "unat (ucast n :: u8) = unat n"
    by (simp add: unsigned_ucast_eq take_bit_nat_eq_self)
  from assms(2) have "unat n \<noteq> 0"
    by (simp add: unat_eq_zero)
  with \<open>unat n \<le> unat samples\<close> have "unat samples \<noteq> 0" "unat (ucast n :: u8) \<noteq> 0"
    by (simp_all add: un)
  then have "samples \<noteq> 0" "(ucast n :: u8) \<noteq> 0"
    by (simp_all add: unat_eq_zero)
  moreover from n un have "(ucast n :: u8) \<le> 10"
    by (simp add: word_le_nat_alt)
  ultimately show ?thesis
    using False by simp
qed

lemma getAverageElapsedTime_fails_iff:
  assumes "ring_inv t"
  shows "(\<exists>err. getAverageElapsedTime samples t = Inl err) \<longleftrightarrow> samples = 0 \<and> count t \<noteq> 0"
proof (cases "count t = 0")
  case True
  then show ?thesis
    by (simp add: getAverageElapsedTime_def Let_def)
next
  case False
  define samples' :: u8 where "samples' = (if 10 < samples then 10 else samples)"
  define v :: u8 where
    "v = ucast (if (ucast samples' :: u32) < count t then ucast samples' else count t)"
  have le: "samples' \<le> 10"
    by (simp add: samples'_def not_less)
  have z: "samples' = 0 \<longleftrightarrow> samples = 0"
    by (auto simp add: samples'_def)
  from valid_samples_bound [OF le False] have v: "v \<le> 10" "v = 0 \<longleftrightarrow> samples = 0"
    by (simp_all add: v_def z)
  from assms have "length (elapsedTimes t) = 10"
    by (simp add: ring_inv_def)
  with v(1) obtain s where "avg_sum (elapsedTimes t) (elapsedIndex t) v 0 0 = Inr s"
    using avg_sum_total [of "elapsedTimes t" v "elapsedIndex t" 0 0] by blast
  moreover have "getAverageElapsedTime samples t =
      (case avg_sum (elapsedTimes t) (elapsedIndex t) v 0 0 of
         Inl err \<Rightarrow> Inl err
       | Inr sm \<Rightarrow> if v = 0 then Inl DivisionByZero else Inr (sm div ucast v))"
    using False unfolding getAverageElapsedTime_def Let_def v_def samples'_def
    by (simp only: if_False)
  ultimately show ?thesis
    using False v(2) by simp
qed

text \<open>
  The run of the specification's example: three events of 100 ms, averaged over 1, 3 and 7
  samples.
\<close>

lemma getAverageElapsedTime_example:
  "getAverageElapsedTime 1
     ((timecontrol1 100 0 0)\<lparr>lastElapsedTime := 100, pMillis := 300,
        elapsedTimes := [100, 100, 100, 0, 0, 0, 0, 0, 0, 0], elapsedIndex := 3, count := 3\<rparr>)
     = Inr 100"
  "getAverageElapsedTime 3
     ((timecontrol1 100 0 0)\<lparr>lastElapsedTime := 100, pMillis := 300,
        elapsedTimes := [100, 100, 100, 0, 0, 0, 0, 0, 0, 0], elapsedIndex := 3, count := 3\<rparr>)
     = Inr 100"
  "getAverageElapsedTime 7
     ((timecontrol1 100 0 0)\<lparr>lastElapsedTime := 100, pMillis := 300,
        elapsedTimes := [100, 100, 100, 0, 0, 0, 0, 0, 0, 0], elapsedIndex := 3, count := 3\<rparr>)
     = Inr 100"
  by (simp_all add: getAverageElapsedTime_def timecontrol1_def Let_def c_rem_def)

text \<open>
  Claim C2. \<open>getAverageElapsedTime(samples)\<close> is to be non-failing, also for
  \<open>samples == 0\<close> once events have been recorded. The code guards \<open>_count == 0\<close> only:
  with \<open>samples == 0\<close> and a nonzero event count \<open>validSamples\<close> is 0, the loop is skipped
  and \<open>sum / validSamples\<close> divides by zero.
\<close>

theorem getAverageElapsedTime_zero_samples:
  "count t \<noteq> 0 \<Longrightarrow> getAverageElapsedTime 0 t = Inl DivisionByZero"
  by (simp add: getAverageElapsedTime_def Let_def word_neq_0_conv)

theorem getAverageElapsedTime_zero_samples_witness:
  "elapsed 1000 7 (timecontrol1 1000 0 0) [Called] =
     Inr (True,
          (timecontrol1 1000 0 0)\<lparr>lastElapsedTime := 1000, pMillis := 1000, pMicros := 7,
            elapsedTimes := [1000, 0, 0, 0, 0, 0, 0, 0, 0, 0], elapsedIndex := 1, count := 1\<rparr>,
          [Called]) \<and>
   count ((timecontrol1 1000 0 0 :: call list timecontrol)\<lparr>lastElapsedTime := 1000,
            pMillis := 1000, pMicros := 7,
            elapsedTimes := [1000, 0, 0, 0, 0, 0, 0, 0, 0, 0], elapsedIndex := 1, count := 1\<rparr>) \<noteq> 0 \<and>
   getAverageElapsedTime 0
     ((timecontrol1 1000 0 0 :: call list timecontrol)\<lparr>lastElapsedTime := 1000,
        pMillis := 1000, pMicros := 7,
        elapsedTimes := [1000, 0, 0, 0, 0, 0, 0, 0, 0, 0], elapsedIndex := 1, count := 1\<rparr>)
     = Inl DivisionByZero"
  using getAverageElapsedTime_zero_samples
    [of "(timecontrol1 1000 0 0 :: call list timecontrol)\<lparr>lastElapsedTime := 1000,
        pMillis := 1000, pMicros := 7,
        elapsedTimes := [1000, 0, 0, 0, 0, 0, 0, 0, 0, 0], elapsedIndex := 1, count := 1\<rparr>"]
  by (simp add: elapsed_def timecontrol1_def Let_def invoke_def invoke1_def replicate_ten)

subsection \<open>Interval detection\<close>

text \<open>
  Claim C3. \<open>elapsed()\<close> returns false and changes nothing when the timer is not running,
  and when it runs and \<open>now - lastTick < interval\<close> (unsigned 32-bit subtraction). When it
  runs and \<open>now - lastTick \<ge> interval\<close> it returns true, having set the last event duration
  to \<open>now - lastTick\<close> and the reference tick to \<open>now\<close>, stored the duration at the write
  index of the ring and advanced the index modulo 10, incremented the event count, called
  the callbacks that are set in the order \<open>_useElapsedFirst\<close> selects, and paused if the
  repeat limit is nonzero and reached.
\<close>

theorem elapsed_behaviour:
  "(\<not> state t \<longrightarrow> elapsed ms us t e = Inr (False, t, e)) \<and>
   (state t \<and> ms - pMillis t < timelapse t \<longrightarrow> elapsed ms us t e = Inr (False, t, e)) \<and>
   (ring_inv t \<and> state t \<and> timelapse t \<le> ms - pMillis t \<longrightarrow>
      elapsed ms us t e =
        Inr (True,
             t\<lparr>lastElapsedTime := ms - pMillis t, pMillis := ms, pMicros := us,
               elapsedTimes := (elapsedTimes t)[unat (elapsedIndex t) := ms - pMillis t],
               elapsedIndex := (elapsedIndex t + 1) mod 10,
               count := count t + 1,
               state := \<not> (0 < repeatCount t \<and> repeatCount t \<le> count t + 1)\<rparr>,
             if useElapsedFirst t
             then invoke (callback t) (invoke1 (elapsedCallback t) (ms - pMillis t) e)
             else invoke1 (elapsedCallback t) (ms - pMillis t) (invoke (callback t) e)))"
  using elapsed_not_running [of t ms us e] elapsed_not_due [of ms t us e]
    elapsed_due [of t ms us e]
  by blast

theorem elapsed_behaviour_witness:
  "(\<not> state (stop (callbacks_sketch 0 0)) \<and>
      elapsed 5000 0 (stop (callbacks_sketch 0 0)) [] =
        Inr (False, stop (callbacks_sketch 0 0), [])) \<and>
   (state (callbacks_sketch 0 0) \<and>
      (999 :: u32) - pMillis (callbacks_sketch 0 0) < timelapse (callbacks_sketch 0 0) \<and>
      elapsed 999 0 (callbacks_sketch 0 0) [] = Inr (False, callbacks_sketch 0 0, [])) \<and>
   (ring_inv (callbacks_sketch 0 0) \<and> state (callbacks_sketch 0 0) \<and>
      timelapse (callbacks_sketch 0 0) \<le> 1000 - pMillis (callbacks_sketch 0 0) \<and>
      elapsed 1000 7 (callbacks_sketch 0 0) [] =
        Inr (True,
             (callbacks_sketch 0 0)\<lparr>lastElapsedTime := 1000, pMillis := 1000, pMicros := 7,
               elapsedTimes := [1000, 0, 0, 0, 0, 0, 0, 0, 0, 0], elapsedIndex := 1, count := 1\<rparr>,
             [CalledWith 1000, Called]))"
  using elapsed_behaviour [of "stop (callbacks_sketch 0 0)" 5000 0 "[]"]
    elapsed_behaviour [of "callbacks_sketch 0 0" 999 0 "[]"]
    elapsed_behaviour [of "callbacks_sketch 0 0" 1000 7 "[]"]
  by (simp add: callbacks_sketch_def stop_def timecontrol1_def setPriorityCallback_def
      setElapsedCallback_def setCallback_def ring_inv_def invoke_def invoke1_def
      simpleAction_def showTime_def replicate_ten)

text \<open>
  Claim C4. With a nonzero repeat limit, a qualifying \<open>elapsed()\<close> leaves the timer running
  exactly when the new event count is still below the limit, and once it has paused the
  timer every later \<open>elapsed()\<close> returns false and changes nothing. With the limit 3 on a
  timer that has counted no event, three qualifying calls return true, the timer runs
  after the first two and is paused after the third, and a fourth call returns false and
  changes nothing. With the limit 0 the timer is running after every \<open>elapsed()\<close>.
\<close>

theorem repeat_limit_auto_pause:
  "(ring_inv t \<and> state t \<and> timelapse t \<le> ms - pMillis t \<and> 0 < repeatCount t \<longrightarrow>
      (\<exists>t' e'. elapsed ms us t e = Inr (True, t', e') \<and> count t' = count t + 1 \<and>
         (state t' \<longleftrightarrow> count t' < repeatCount t) \<and>
         (\<not> state t' \<longrightarrow> elapsed ms' us' t' e' = Inr (False, t', e')))) \<and>
   (ring_inv t \<and> state t \<and> repeatCount t = 3 \<and> count t = 0 \<and>
    timelapse t \<le> msA - pMillis t \<and> timelapse t \<le> msB - msA \<and> timelapse t \<le> msC - msB \<longrightarrow>
      (\<exists>t1 e1 t2 e2 t3 e3.
         elapsed msA usA t e = Inr (True, t1, e1) \<and> state t1 \<and>
         elapsed msB usB t1 e1 = Inr (True, t2, e2) \<and> state t2 \<and>
         elapsed msC usC t2 e2 = Inr (True, t3, e3) \<and> \<not> state t3 \<and>
         elapsed msD usD t3 e3 = Inr (False, t3, e3))) \<and>
   (ring_inv t \<and> state t \<and> repeatCount t = 0 \<longrightarrow>
      (\<exists>fired t' e'. elapsed ms us t e = Inr (fired, t', e') \<and> state t'))"
proof (intro conjI impI)
  assume a: "ring_inv t \<and> state t \<and> timelapse t \<le> ms - pMillis t \<and> 0 < repeatCount t"
  then obtain t' e' where s: "elapsed ms us t e = Inr (True, t', e')" "count t' = count t + 1"
      "state t' \<longleftrightarrow> \<not> (0 < repeatCount t \<and> repeatCount t \<le> count t + 1)"
    using elapsed_due_state [of t ms us e] by blast
  from a s(2,3) have "state t' \<longleftrightarrow> count t' < repeatCount t"
    by (simp add: not_le)
  with s(1,2) elapsed_not_running [of t' ms' us' e']
  show "\<exists>t' e'. elapsed ms us t e = Inr (True, t', e') \<and> count t' = count t + 1 \<and>
         (state t' \<longleftrightarrow> count t' < repeatCount t) \<and>
         (\<not> state t' \<longrightarrow> elapsed ms' us' t' e' = Inr (False, t', e'))"
    by blast
next
  assume a: "ring_inv t \<and> state t \<and> repeatCount t = 3 \<and> count t = 0 \<and>
    timelapse t \<le> msA - pMillis t \<and> timelapse t \<le> msB - msA \<and> timelapse t \<le> msC - msB"
  have n1: "\<not> (3 :: u32) \<le> 0 + 1" and n2: "\<not> (3 :: u32) \<le> 1 + 1"
    and n3: "(3 :: u32) \<le> 2 + 1" and o2: "(1 :: u32) + 1 = 2"
    by (simp_all add: word_le_nat_alt)
  from a obtain t1 e1 where s1: "elapsed msA usA t e = Inr (True, t1, e1)" "ring_inv t1"
      "count t1 = 1" "repeatCount t1 = 3" "timelapse t1 = timelapse t" "pMillis t1 = msA"
      "state t1"
    using elapsed_due_state [of t msA usA e] n1 by auto
  with a obtain t2 e2 where s2: "elapsed msB usB t1 e1 = Inr (True, t2, e2)" "ring_inv t2"
      "count t2 = 2" "repeatCount t2 = 3" "timelapse t2 = timelapse t" "pMillis t2 = msB"
      "state t2"
    using elapsed_due_state [of t1 msB usB e1] n2 o2 by auto
  with a obtain t3 e3 where s3: "elapsed msC usC t2 e2 = Inr (True, t3, e3)" "\<not> state t3"
    using elapsed_due_state [of t2 msC usC e2] n3 by auto
  from s3(2) have "elapsed msD usD t3 e3 = Inr (False, t3, e3)"
    by (rule elapsed_not_running)
  with s1(1,7) s2(1,7) s3
  show "\<exists>t1 e1 t2 e2 t3 e3.
         elapsed msA usA t e = Inr (True, t1, e1) \<and> state t1 \<and>
         elapsed msB usB t1 e1 = Inr (True, t2, e2) \<and> state t2 \<and>
         elapsed msC usC t2 e2 = Inr (True, t3, e3) \<and> \<not> state t3 \<and>
         elapsed msD usD t3 e3 = Inr (False, t3, e3)"
    by blast
next
  assume a: "ring_inv t \<and> state t \<and> repeatCount t = 0"
  show "\<exists>fired t' e'. elapsed ms us t e = Inr (fired, t', e') \<and> state t'"
  proof (cases "timelapse t \<le> ms - pMillis t")
    case True
    with a show ?thesis
      using elapsed_due_state [of t ms us e] by auto
  next
    case False
    then have "elapsed ms us t e = Inr (False, t, e)"
      by (simp add: elapsed_not_due)
    with a show ?thesis by blast
  qed
qed

theorem repeat_limit_auto_pause_witness:
  "(ring_inv (setRepeatCount 1 (repeat_sketch 0 0)) \<and> state (setRepeatCount 1 (repeat_sketch 0 0)) \<and>
    timelapse (setRepeatCount 1 (repeat_sketch 0 0)) \<le> 1000 - pMillis (setRepeatCount 1 (repeat_sketch 0 0)) \<and>
    0 < repeatCount (setRepeatCount 1 (repeat_sketch 0 0)) \<and>
    (\<exists>t' e'. elapsed 1000 7 (setRepeatCount 1 (repeat_sketch 0 0)) [] = Inr (True, t', e') \<and>
       count t' = count (setRepeatCount 1 (repeat_sketch 0 0)) + 1 \<and>
       (state t' \<longleftrightarrow> count t' < repeatCount (setRepeatCount 1 (repeat_sketch 0 0))) \<and>
       (\<not> state t' \<longrightarrow> elapsed 2000 8 t' e' = Inr (False, t', e')))) \<and>
   (ring_inv (repeat_sketch 0 0) \<and> state (repeat_sketch 0 0) \<and>
    repeatCount (repeat_sketch 0 0) = 3 \<and> count (repeat_sketch 0 0) = 0 \<and>
    timelapse (repeat_sketch 0 0) \<le> 1000 - pMillis (repeat_sketch 0 0) \<and>
    timelapse (repeat_sketch 0 0) \<le> 2000 - 1000 \<and>
    timelapse (repeat_sketch 0 0) \<le> 3000 - 2000 \<and>
    (\<exists>t1 e1 t2 e2 t3 e3.
       elapsed 1000 1 (repeat_sketch 0 0) [] = Inr (True, t1, e1) \<and> state t1 \<and>
       elapsed 2000 2 t1 e1 = Inr (True, t2, e2) \<and> state t2 \<and>
       elapsed 3000 3 t2 e2 = Inr (True, t3, e3) \<and> \<not> state t3 \<and>
       elapsed 4000 4 t3 e3 = Inr (False, t3, e3))) \<and>
   (ring_inv (timecontrol1 1000 0 0 :: call list timecontrol) \<and>
    state (timecontrol1 1000 0 0 :: call list timecontrol) \<and>
    repeatCount (timecontrol1 1000 0 0 :: call list timecontrol) = 0 \<and>
    (\<exists>fired t' e'. elapsed 1000 7 (timecontrol1 1000 0 0 :: call list timecontrol) [] = Inr (fired, t', e') \<and>
       state t'))"
proof -
  have h1: "ring_inv (setRepeatCount 1 (repeat_sketch 0 0)) \<and> state (setRepeatCount 1 (repeat_sketch 0 0)) \<and>
    timelapse (setRepeatCount 1 (repeat_sketch 0 0)) \<le> 1000 - pMillis (setRepeatCount 1 (repeat_sketch 0 0)) \<and>
    0 < repeatCount (setRepeatCount 1 (repeat_sketch 0 0))"
    by (simp add: repeat_sketch_def setRepeatCount_def timecontrol1_def ring_inv_def)
  have h2: "ring_inv (repeat_sketch 0 0) \<and> state (repeat_sketch 0 0) \<and>
    repeatCount (repeat_sketch 0 0) = 3 \<and> count (repeat_sketch 0 0) = 0 \<and>
    timelapse (repeat_sketch 0 0) \<le> 1000 - pMillis (repeat_sketch 0 0) \<and>
    timelapse (repeat_sketch 0 0) \<le> 2000 - 1000 \<and>
    timelapse (repeat_sketch 0 0) \<le> 3000 - 2000"
    by (simp add: repeat_sketch_def setRepeatCount_def timecontrol1_def ring_inv_def)
  have h3: "ring_inv (timecontrol1 1000 0 0 :: call list timecontrol) \<and>
    state (timecontrol1 1000 0 0 :: call list timecontrol) \<and>
    repeatCount (timecontrol1 1000 0 0 :: call list timecontrol) = 0"
    by (simp add: timecontrol1_def ring_inv_def)
  note thm1 = repeat_limit_auto_pause [where t = "setRepeatCount 1 (repeat_sketch 0 0)"
      and ms = 1000 and us = 7 and e = "[]" and ms' = 2000 and us' = 8, THEN conjunct1]
  note thm2 = repeat_limit_auto_pause [where t = "repeat_sketch 0 0" and e = "[]"
      and msA = 1000 and msB = 2000 and msC = 3000 and msD = 4000
      and usA = 1 and usB = 2 and usC = 3 and usD = 4, THEN conjunct2, THEN conjunct1]
  note thm3 = repeat_limit_auto_pause [where t = "timecontrol1 1000 0 0 :: call list timecontrol"
      and ms = 1000 and us = 7 and e = "[]", THEN conjunct2, THEN conjunct2]
  from h1 h2 h3 thm1 [rule_format, OF h1] thm2 [rule_format, OF h2] thm3 [rule_format, OF h3]
  show ?thesis by blast
qed

text \<open>
  Claim C7, as amended. \<open>remainingTime()\<close> returns 0 and changes nothing when the timer is
  paused; when the inner \<open>elapsed()\<close> crosses an interval boundary it returns 0 and keeps
  the effects of that call; otherwise it returns \<open>interval - (now - lastTick)\<close> for its
  second clock read, or 0 if that is already past due. Immediately after a crossing it
  returns the full interval if the timer is still running, and 0 if the repeat limit was
  reached on that crossing, which paused the timer.
\<close>

theorem remainingTime_behaviour:
  "(\<not> state t \<longrightarrow> remainingTime msA us msB t e = Inr (0, t, e)) \<and>
   (ring_inv t \<and> state t \<and> timelapse t \<le> msA - pMillis t \<longrightarrow>
      (\<exists>t' e'. elapsed msA us t e = Inr (True, t', e') \<and>
         remainingTime msA us msB t e = Inr (0, t', e'))) \<and>
   (state t \<and> msA - pMillis t < timelapse t \<longrightarrow>
      remainingTime msA us msB t e =
        Inr (if msB - pMillis t < timelapse t then timelapse t - (msB - pMillis t) else 0, t, e)) \<and>
   (ring_inv t \<and> state t \<and> timelapse t \<le> msA - pMillis t \<longrightarrow>
      (\<exists>t' e'. elapsed msA us t e = Inr (True, t', e') \<and>
         (\<exists>t'' e''. remainingTime msA usB msA t' e' =
            Inr (if state t' then timelapse t else 0, t'', e''))))"
proof (intro conjI impI)
  assume "\<not> state t"
  then show "remainingTime msA us msB t e = Inr (0, t, e)"
    by (rule remainingTime_paused)
next
  assume a: "ring_inv t \<and> state t \<and> timelapse t \<le> msA - pMillis t"
  then obtain t' e' where "elapsed msA us t e = Inr (True, t', e')"
    using elapsed_due [of t msA us e] by blast
  with a show "\<exists>t' e'. elapsed msA us t e = Inr (True, t', e') \<and>
         remainingTime msA us msB t e = Inr (0, t', e')"
    using remainingTime_crossing [of t msA us e t' e' msB] by blast
next
  assume "state t \<and> msA - pMillis t < timelapse t"
  then show "remainingTime msA us msB t e =
        Inr (if msB - pMillis t < timelapse t then timelapse t - (msB - pMillis t) else 0, t, e)"
    by (simp add: remainingTime_not_due)
next
  assume a: "ring_inv t \<and> state t \<and> timelapse t \<le> msA - pMillis t"
  then obtain t' e' where s: "elapsed msA us t e = Inr (True, t', e')" "ring_inv t'"
      "timelapse t' = timelapse t" "pMillis t' = msA"
    using elapsed_due_state [of t msA us e] by blast
  have "\<exists>t'' e''. remainingTime msA usB msA t' e' =
            Inr (if state t' then timelapse t else 0, t'', e'')"
  proof (cases "state t'")
    case False
    then show ?thesis
      by (simp add: remainingTime_paused)
  next
    case True
    show ?thesis
    proof (cases "timelapse t = 0")
      case z: True
      with s True obtain t'' e'' where "elapsed msA usB t' e' = Inr (True, t'', e'')"
        using elapsed_due [of t' msA usB e'] by auto
      with True z show ?thesis
        using remainingTime_crossing [of t' msA usB e' t'' e'' msA] by simp
    next
      case False
      then have "0 < timelapse t"
        by (simp add: word_neq_0_conv)
      with s True show ?thesis
        using remainingTime_not_due [of t' msA usB msA e'] by simp
    qed
  qed
  with s(1) show "\<exists>t' e'. elapsed msA us t e = Inr (True, t', e') \<and>
         (\<exists>t'' e''. remainingTime msA usB msA t' e' =
            Inr (if state t' then timelapse t else 0, t'', e''))"
    by blast
qed

theorem remainingTime_behaviour_witness:
  "(\<not> state (stop (timecontrol1 1000 0 0 :: call list timecontrol)) \<and>
    remainingTime 400 7 401 (stop (timecontrol1 1000 0 0)) ([] :: call list) =
      Inr (0, stop (timecontrol1 1000 0 0), [])) \<and>
   (ring_inv (timecontrol1 1000 0 0 :: call list timecontrol) \<and>
    state (timecontrol1 1000 0 0 :: call list timecontrol) \<and>
    timelapse (timecontrol1 1000 0 0 :: call list timecontrol)
      \<le> 1000 - pMillis (timecontrol1 1000 0 0 :: call list timecontrol) \<and>
    (\<exists>t' e'. elapsed 1000 7 (timecontrol1 1000 0 0) ([] :: call list) = Inr (True, t', e') \<and>
       remainingTime 1000 7 1001 (timecontrol1 1000 0 0) [] = Inr (0, t', e')) \<and>
    (\<exists>t' e'. elapsed 1000 7 (timecontrol1 1000 0 0) ([] :: call list) = Inr (True, t', e') \<and>
       (\<exists>t'' e''. remainingTime 1000 8 1000 t' e' =
          Inr (if state t' then timelapse (timecontrol1 1000 0 0 :: call list timecontrol)
               else 0, t'', e'')))) \<and>
   (state (timecontrol1 1000 0 0 :: call list timecontrol) \<and>
    400 - pMillis (timecontrol1 1000 0 0 :: call list timecontrol)
      < timelapse (timecontrol1 1000 0 0 :: call list timecontrol) \<and>
    remainingTime 400 7 401 (timecontrol1 1000 0 0) ([] :: call list) =
      Inr (599, timecontrol1 1000 0 0, []))"
proof -
  note a = remainingTime_behaviour [where t = "stop (timecontrol1 1000 0 0 :: call list timecontrol)"
      and msA = 400 and us = 7 and msB = 401 and e = "[]"]
  note b = remainingTime_behaviour [where t = "timecontrol1 1000 0 0 :: call list timecontrol"
      and msA = 1000 and us = 7 and msB = 1001 and usB = 8 and e = "[]"]
  note c = remainingTime_behaviour [where t = "timecontrol1 1000 0 0 :: call list timecontrol"
      and msA = 400 and us = 7 and msB = 401 and e = "[]"]
  have h: "\<not> state (stop (timecontrol1 1000 0 0 :: call list timecontrol))"
    "ring_inv (timecontrol1 1000 0 0 :: call list timecontrol) \<and>
     state (timecontrol1 1000 0 0 :: call list timecontrol) \<and>
     timelapse (timecontrol1 1000 0 0 :: call list timecontrol)
       \<le> 1000 - pMillis (timecontrol1 1000 0 0 :: call list timecontrol)"
    "state (timecontrol1 1000 0 0 :: call list timecontrol) \<and>
     400 - pMillis (timecontrol1 1000 0 0 :: call list timecontrol)
       < timelapse (timecontrol1 1000 0 0 :: call list timecontrol)"
    by (simp_all add: timecontrol1_def stop_def ring_inv_def)
  have 1: "remainingTime 400 7 401 (stop (timecontrol1 1000 0 0)) ([] :: call list) =
      Inr (0, stop (timecontrol1 1000 0 0), [])"
    using a h(1) by blast
  have 3: "remainingTime 400 7 401 (timecontrol1 1000 0 0) ([] :: call list) =
      Inr (599, timecontrol1 1000 0 0, [])"
    using c [THEN conjunct2, THEN conjunct2, THEN conjunct1, rule_format, OF h(3)]
    by (simp add: timecontrol1_def)
  from h 1 3 b show ?thesis by blast
qed

text \<open>
  Claim C7 as stated fails for a timer whose repeat limit is reached on the crossing: with
  interval 1000 and repeat limit 1, the crossing at 1000 pauses the timer and
  \<open>remainingTime()\<close> then returns 0, not 1000.
\<close>

theorem remainingTime_after_repeat_limit:
  "elapsed 1000 7 (setRepeatCount 1 (timecontrol1 1000 0 0)) [] =
     Inr (True,
          (setRepeatCount 1 (timecontrol1 1000 0 0))\<lparr>lastElapsedTime := 1000, pMillis := 1000,
             pMicros := 7, elapsedTimes := [1000, 0, 0, 0, 0, 0, 0, 0, 0, 0],
             elapsedIndex := 1, count := 1, state := False\<rparr>,
          [] :: call list) \<and>
   remainingTime 1000 8 1000
     ((setRepeatCount 1 (timecontrol1 1000 0 0))\<lparr>lastElapsedTime := 1000, pMillis := 1000,
        pMicros := 7, elapsedTimes := [1000, 0, 0, 0, 0, 0, 0, 0, 0, 0],
        elapsedIndex := 1, count := 1, state := False\<rparr>) ([] :: call list) =
     Inr (0,
          (setRepeatCount 1 (timecontrol1 1000 0 0))\<lparr>lastElapsedTime := 1000, pMillis := 1000,
             pMicros := 7, elapsedTimes := [1000, 0, 0, 0, 0, 0, 0, 0, 0, 0],
             elapsedIndex := 1, count := 1, state := False\<rparr>,
          []) \<and>
   timelapse ((setRepeatCount 1 (timecontrol1 1000 0 0 :: call list timecontrol))\<lparr>
       lastElapsedTime := 1000, pMillis := 1000,
       pMicros := 7, elapsedTimes := [1000, 0, 0, 0, 0, 0, 0, 0, 0, 0],
       elapsedIndex := 1, count := 1, state := False\<rparr>) = 1000"
  by (simp add: elapsed_def remainingTime_def setRepeatCount_def timecontrol1_def Let_def
      stop_def invoke_def invoke1_def replicate_ten)

text \<open>
  The cases of \<open>countdown(duration, callback)\<close>. A timer that is not running is armed:
  the interval becomes \<open>duration\<close>, the reference tick the clock read, the timer runs. Every
  call then compares its clock read with the reference tick and the stored interval: when
  the interval has passed it pauses the timer, calls \<open>callback\<close> once if it is set and
  returns 0, otherwise it returns the remaining ticks. On a running timer \<open>duration\<close> is
  not used.
\<close>

lemma countdown_cases:
  "\<not> state t \<and> msB - msA < duration \<longrightarrow>
      countdown duration cb msA msB t e =
        (duration - (msB - msA), t\<lparr>pMillis := msA, timelapse := duration, state := True\<rparr>, e)"
  "\<not> state t \<and> duration \<le> msB - msA \<longrightarrow>
      countdown duration cb msA msB t e =
        (0, t\<lparr>pMillis := msA, timelapse := duration, state := False\<rparr>, invoke cb e)"
  "state t \<and> msB - pMillis t < timelapse t \<longrightarrow>
      countdown duration cb msA msB t e = (timelapse t - (msB - pMillis t), t, e)"
  "state t \<and> timelapse t \<le> msB - pMillis t \<longrightarrow>
      countdown duration cb msA msB t e = (0, t\<lparr>state := False\<rparr>, invoke cb e)"
  by (simp_all add: countdown_def Let_def not_le [symmetric])

text \<open>
  On a timer that was paused, the countdown of 5000 runs as documented: the arming call
  returns 5000, a call 3997 ticks later returns 1003, and the call at 5000 ticks pauses
  the timer, calls the callback once and returns 0.
\<close>

lemma countdown_paused_timer_example:
  "countdown 5000 (Some simpleAction) 3 3 (stop (countdown_sketch 0 0)) [] =
     (5000, (countdown_sketch 0 0)\<lparr>pMillis := 3, timelapse := 5000\<rparr>, [])"
  "countdown 5000 (Some simpleAction) 0 4000
       ((countdown_sketch 0 0)\<lparr>pMillis := 3, timelapse := 5000\<rparr>) [] =
     (1003, (countdown_sketch 0 0)\<lparr>pMillis := 3, timelapse := 5000\<rparr>, [])"
  "countdown 5000 (Some simpleAction) 0 5003
       ((countdown_sketch 0 0)\<lparr>pMillis := 3, timelapse := 5000\<rparr>) [] =
     (0, (stop (countdown_sketch 0 0))\<lparr>pMillis := 3, timelapse := 5000\<rparr>, [Called])"
  by (simp_all add: countdown_def Let_def countdown_sketch_def timecontrol0_def stop_def
      invoke_def simpleAction_def)

text \<open>
  Claim C6. \<open>countdown(duration, callback)\<close> is to arm the timer with \<open>duration\<close> and, in
  particular, the very first \<open>countdown(5000, cb)\<close> on a timer is to arm it and return
  about 5000; the header documents \<open>duration\<close> as the countdown duration and the countdown
  sketch calls \<open>countdown(5000, finished)\<close> on a timer from the default constructor to start
  a 5-second countdown. The code arms only a timer that is not running, and the default
  constructor leaves the timer running with interval 0: the very first
  \<open>countdown(5000, finished)\<close> of the sketch finds the interval 0 passed, pauses the timer,
  calls \<open>finished\<close> and returns 0.
\<close>

theorem countdown_first_call_fresh_timer:
  "countdown 5000 (Some simpleAction) 0 0 (countdown_sketch 0 0) [] =
     (0, stop (countdown_sketch 0 0), [Called])"
  by (simp add: countdown_def Let_def countdown_sketch_def timecontrol0_def stop_def invoke_def
      simpleAction_def)

text \<open>
  Claim C10, as amended. On a running timer with an interval below 1000 the threshold
  \<open>interval / 1000\<close> is 0 and \<open>elapsedSeconds()\<close> returns true on every call, recording
  \<open>(now / 1000 - lastTick / 1000) * 1000\<close> in 32-bit arithmetic; when the clock read is not
  below the reference tick this is a whole multiple of 1000. The millisecond variant
  differs: with interval 500 and 100 ms passed \<open>elapsed()\<close> returns false where
  \<open>elapsedSeconds()\<close> returns true.
\<close>

theorem elapsedSeconds_subsecond:
  "(ring_inv t \<and> state t \<and> timelapse t < 1000 \<longrightarrow>
      (\<exists>t' e'. elapsedSeconds msA msB us t e = Inr (True, t', e') \<and>
         lastElapsedTime t' = (msA div 1000 - pMillis t div 1000) * 1000)) \<and>
   (ring_inv t \<and> state t \<and> timelapse t < 1000 \<and> pMillis t \<le> msA \<longrightarrow>
      (\<exists>t' e'. elapsedSeconds msA msB us t e = Inr (True, t', e') \<and>
         1000 dvd unat (lastElapsedTime t'))) \<and>
   elapsed 100 7 (timecontrol1 500 0 0) e = Inr (False, timecontrol1 500 0 0, e) \<and>
   (\<exists>t'. elapsedSeconds 100 100 7 (timecontrol1 500 0 0) e = Inr (True, t', e))"
proof (intro conjI impI)
  assume a: "ring_inv t \<and> state t \<and> timelapse t < 1000"
  then have "timelapse t div 1000 = 0"
    by (simp add: subsecond_threshold)
  with a show "\<exists>t' e'. elapsedSeconds msA msB us t e = Inr (True, t', e') \<and>
         lastElapsedTime t' = (msA div 1000 - pMillis t div 1000) * 1000"
    by (simp add: elapsedSeconds_due)
next
  assume a: "ring_inv t \<and> state t \<and> timelapse t < 1000 \<and> pMillis t \<le> msA"
  then have "timelapse t div 1000 = 0"
    by (simp add: subsecond_threshold)
  with a show "\<exists>t' e'. elapsedSeconds msA msB us t e = Inr (True, t', e') \<and>
         1000 dvd unat (lastElapsedTime t')"
    using whole_seconds [of "pMillis t" msA]
    by (simp add: elapsedSeconds_due)
next
  show "elapsed 100 7 (timecontrol1 500 0 0) e = Inr (False, timecontrol1 500 0 0, e)"
    by (simp add: elapsed_def timecontrol1_def)
next
  show "\<exists>t'. elapsedSeconds 100 100 7 (timecontrol1 500 0 0) e = Inr (True, t', e)"
    by (simp add: elapsedSeconds_def timecontrol1_def Let_def invoke_def invoke1_def)
qed

theorem elapsedSeconds_subsecond_witness:
  "ring_inv (timecontrol1 500 0 0 :: call list timecontrol) \<and>
   state (timecontrol1 500 0 0 :: call list timecontrol) \<and>
   timelapse (timecontrol1 500 0 0 :: call list timecontrol) < 1000 \<and>
   pMillis (timecontrol1 500 0 0 :: call list timecontrol) \<le> 1700 \<and>
   (\<exists>t' e'. elapsedSeconds 1700 1701 7 (timecontrol1 500 0 0) ([] :: call list) =
        Inr (True, t', e') \<and>
      lastElapsedTime t' = (1700 div 1000 - pMillis (timecontrol1 500 0 0 :: call list timecontrol) div 1000) * 1000) \<and>
   (\<exists>t' e'. elapsedSeconds 1700 1701 7 (timecontrol1 500 0 0) ([] :: call list) =
        Inr (True, t', e') \<and>
      1000 dvd unat (lastElapsedTime t'))"
proof -
  have h: "ring_inv (timecontrol1 500 0 0 :: call list timecontrol) \<and>
      state (timecontrol1 500 0 0 :: call list timecontrol) \<and>
      timelapse (timecontrol1 500 0 0 :: call list timecontrol) < 1000 \<and>
      pMillis (timecontrol1 500 0 0 :: call list timecontrol) \<le> 1700"
    by (simp add: timecontrol1_def ring_inv_def)
  with elapsedSeconds_subsecond [where t = "timecontrol1 500 0 0 :: call list timecontrol"
      and msA = 1700 and msB = 1701 and us = 7 and e = "[]"]
  show ?thesis by blast
qed

text \<open>
  Claim C10 as stated fails after the millisecond clock has wrapped: with the reference
  tick 4294967000 and the clock read 5 the recorded duration is 296.
\<close>

theorem elapsedSeconds_wrap_not_whole_seconds:
  "elapsedSeconds 5 5 7 (timecontrol1 500 4294967000 0) [] =
     Inr (True,
          (timecontrol1 500 4294967000 0)\<lparr>pMillis := 5, pMicros := 7, lastElapsedTime := 296,
             elapsedTimes := [296, 0, 0, 0, 0, 0, 0, 0, 0, 0], elapsedIndex := 1, count := 1\<rparr>,
          [] :: call list) \<and>
   \<not> 1000 dvd unat (296 :: u32)"
  by (simp add: elapsedSeconds_def timecontrol1_def Let_def invoke_def invoke1_def replicate_ten)

subsection \<open>Interrupt dispatch\<close>

text \<open>
  Claim C5, as amended. The interrupt handler acts only when there is an instance and its
  zero-argument callback is set; otherwise it changes nothing and calls nothing, also when
  the duration callback is set. When it acts, it increments the event count, records as
  last event duration \<open>now - lastTick\<close> for a running timer and 0 for a paused one,
  advances both reference ticks, calls the callbacks in the configured order, stores the
  duration in the ring, and then pauses the timer if the repeat limit is reached and
  otherwise leaves it running. On a running timer whose interval has passed, with the
  same clock reads, this is the state and the user state that \<open>elapsed()\<close> produces.
\<close>

theorem interruptHandler_behaviour:
  "interruptHandler msA msB us None e = Inr (None, e) \<and>
   (callback t = None \<longrightarrow> interruptHandler msA msB us (Some t) e = Inr (Some t, e)) \<and>
   (ring_inv t \<and> callback t \<noteq> None \<longrightarrow>
      interruptHandler msA msB us (Some t) e =
        Inr (Some (t\<lparr>count := count t + 1,
                     lastElapsedTime := (if state t then msA - pMillis t else 0),
                     pMillis := msB, pMicros := us,
                     elapsedTimes := (elapsedTimes t)[unat (elapsedIndex t) :=
                                       (if state t then msA - pMillis t else 0)],
                     elapsedIndex := (elapsedIndex t + 1) mod 10,
                     state := \<not> (0 < repeatCount t \<and> repeatCount t \<le> count t + 1)\<rparr>),
             if useElapsedFirst t
             then invoke (callback t)
                    (invoke1 (elapsedCallback t) (if state t then msA - pMillis t else 0) e)
             else invoke1 (elapsedCallback t) (if state t then msA - pMillis t else 0)
                    (invoke (callback t) e))) \<and>
   (ring_inv t \<and> callback t \<noteq> None \<and> state t \<and> timelapse t \<le> msA - pMillis t \<longrightarrow>
      (\<exists>t' e'. elapsed msA us t e = Inr (True, t', e') \<and>
         interruptHandler msA msA us (Some t) e = Inr (Some t', e')))"
proof (intro conjI impI)
  show "interruptHandler msA msB us None e = Inr (None, e)"
    by (simp add: interruptHandler_def)
next
  assume "callback t = None"
  then show "interruptHandler msA msB us (Some t) e = Inr (Some t, e)"
    by (rule interruptHandler_no_callback)
next
  assume "ring_inv t \<and> callback t \<noteq> None"
  then show "interruptHandler msA msB us (Some t) e =
        Inr (Some (t\<lparr>count := count t + 1,
                     lastElapsedTime := (if state t then msA - pMillis t else 0),
                     pMillis := msB, pMicros := us,
                     elapsedTimes := (elapsedTimes t)[unat (elapsedIndex t) :=
                                       (if state t then msA - pMillis t else 0)],
                     elapsedIndex := (elapsedIndex t + 1) mod 10,
                     state := \<not> (0 < repeatCount t \<and> repeatCount t \<le> count t + 1)\<rparr>),
             if useElapsedFirst t
             then invoke (callback t)
                    (invoke1 (elapsedCallback t) (if state t then msA - pMillis t else 0) e)
             else invoke1 (elapsedCallback t) (if state t then msA - pMillis t else 0)
                    (invoke (callback t) e))"
    using interruptHandler_fire [of t msA msB us e] by blast
next
  assume a: "ring_inv t \<and> callback t \<noteq> None \<and> state t \<and> timelapse t \<le> msA - pMillis t"
  then show "\<exists>t' e'. elapsed msA us t e = Inr (True, t', e') \<and>
         interruptHandler msA msA us (Some t) e = Inr (Some t', e')"
    by (simp add: elapsed_due interruptHandler_fire)
qed

theorem interruptHandler_behaviour_witness:
  "(callback (duration_only_sketch 0 0) = None \<and>
    interruptHandler 50 50 7 (Some (duration_only_sketch 0 0)) [] =
      Inr (Some (duration_only_sketch 0 0), [])) \<and>
   (ring_inv (stop (callbacks_sketch 0 0)) \<and> callback (stop (callbacks_sketch 0 0)) \<noteq> None \<and>
    interruptHandler 50 51 7 (Some (stop (callbacks_sketch 0 0))) [] =
      Inr (Some ((callbacks_sketch 0 0)\<lparr>count := 1, lastElapsedTime := 0, pMillis := 51,
                   pMicros := 7, elapsedTimes := [0, 0, 0, 0, 0, 0, 0, 0, 0, 0],
                   elapsedIndex := 1\<rparr>),
           [CalledWith 0, Called])) \<and>
   (ring_inv (callbacks_sketch 0 0) \<and> callback (callbacks_sketch 0 0) \<noteq> None \<and>
    state (callbacks_sketch 0 0) \<and>
    timelapse (callbacks_sketch 0 0) \<le> 1000 - pMillis (callbacks_sketch 0 0) \<and>
    (\<exists>t' e'. elapsed 1000 7 (callbacks_sketch 0 0) [] = Inr (True, t', e') \<and>
       interruptHandler 1000 1000 7 (Some (callbacks_sketch 0 0)) [] = Inr (Some t', e')))"
proof -
  note a = interruptHandler_behaviour [where t = "duration_only_sketch 0 0" and msA = 50
      and msB = 50 and us = 7 and e = "[]"]
  note b = interruptHandler_behaviour [where t = "stop (callbacks_sketch 0 0)" and msA = 50
      and msB = 51 and us = 7 and e = "[]"]
  note c = interruptHandler_behaviour [where t = "callbacks_sketch 0 0" and msA = 1000
      and msB = 1000 and us = 7 and e = "[]"]
  have h: "callback (duration_only_sketch 0 0) = None"
    "ring_inv (stop (callbacks_sketch 0 0)) \<and> callback (stop (callbacks_sketch 0 0)) \<noteq> None"
    "ring_inv (callbacks_sketch 0 0) \<and> callback (callbacks_sketch 0 0) \<noteq> None \<and>
      state (callbacks_sketch 0 0) \<and>
      timelapse (callbacks_sketch 0 0) \<le> 1000 - pMillis (callbacks_sketch 0 0)"
    by (simp_all add: duration_only_sketch_def callbacks_sketch_def stop_def timecontrol0_def
        timecontrol1_def setPriorityCallback_def setElapsedCallback_def setCallback_def
        ring_inv_def)
  have 1: "interruptHandler 50 50 7 (Some (duration_only_sketch 0 0)) [] =
      Inr (Some (duration_only_sketch 0 0), [])"
    using a h(1) by blast
  have 2: "interruptHandler 50 51 7 (Some (stop (callbacks_sketch 0 0))) [] =
      Inr (Some ((callbacks_sketch 0 0)\<lparr>count := 1, lastElapsedTime := 0, pMillis := 51,
                   pMicros := 7, elapsedTimes := [0, 0, 0, 0, 0, 0, 0, 0, 0, 0],
                   elapsedIndex := 1\<rparr>),
           [CalledWith 0, Called])"
    using b [THEN conjunct2, THEN conjunct2, THEN conjunct1, rule_format, OF h(2)]
    by (simp add: callbacks_sketch_def stop_def timecontrol1_def setPriorityCallback_def
        setElapsedCallback_def setCallback_def invoke_def invoke1_def simpleAction_def
        showTime_def replicate_ten)
  have 3: "\<exists>t' e'. elapsed 1000 7 (callbacks_sketch 0 0) [] = Inr (True, t', e') \<and>
       interruptHandler 1000 1000 7 (Some (callbacks_sketch 0 0)) [] = Inr (Some t', e')"
    using c h(3) by blast
  from h 1 2 3 show ?thesis by blast
qed

text \<open>
  Claim C5 as stated fails when only the duration callback is set: the handler returns
  with the event count still 0 and no callback called.
\<close>

theorem interruptHandler_duration_callback_only:
  "elapsedCallback (duration_only_sketch 0 0) = Some showTime \<and>
   callback (duration_only_sketch 0 0) = None \<and>
   count (duration_only_sketch 0 0) = 0 \<and>
   interruptHandler 50 50 7 (Some (duration_only_sketch 0 0)) [] =
     Inr (Some (duration_only_sketch 0 0), [])"
  by (simp add: duration_only_sketch_def setElapsedCallback_def timecontrol0_def
      interruptHandler_def)

subsection \<open>State management\<close>

lemma adjustTimelapse_example:
  "adjustTimelapse (- 1000) (timecontrol1 500 0 0) = Inr (timecontrol1 0 0 0)"
  by (simp add: adjustTimelapse_def timecontrol1_def Let_def)

lemma adjustTimelapse_in_range:
  assumes "timelapse t < 2 ^ 31" "uint (timelapse t) + sint adjustment < 2 ^ 31"
  shows "adjustTimelapse adjustment t =
    Inr (t\<lparr>timelapse := word_of_int (max 0 (uint (timelapse t) + sint adjustment))\<rparr>)"
proof -
  have "- (2 ^ 31) \<le> (0 :: int)"
    by simp
  also have "0 \<le> uint (timelapse t)"
    by simp
  finally have lb: "- (2 ^ 31) \<le> uint (timelapse t)" .
  from assms(1) have "uint (timelapse t) < 2 ^ 31"
    by (simp add: word_less_def)
  with lb have "signed_take_bit 31 (uint (timelapse t)) = uint (timelapse t)"
    by (rule signed_take_bit_int_eq_self)
  then have s: "sint (timelapse t) = uint (timelapse t)"
    by (simp add: sint_uint)
  have "- (2 ^ 31) \<le> sint adjustment"
    using sint_ge [of adjustment] by simp
  then have "- (2 ^ 31) \<le> 0 + sint adjustment"
    by simp
  also have "0 + sint adjustment \<le> uint (timelapse t) + sint adjustment"
    by (rule add_right_mono) simp
  finally have lo: "\<not> uint (timelapse t) + sint adjustment < - (2 ^ 31)"
    by (simp only: not_less)
  show ?thesis
    using assms(2) lo s by (auto simp add: adjustTimelapse_def Let_def max_def)
qed

text \<open>
  Claim C8. \<open>adjustTimelapse(adjustment)\<close> is to set the interval to
  \<open>interval + adjustment\<close> clamped at 0, for every interval and every adjustment. The code
  adds in \<open>int32_t\<close> after the cast \<open>(int32_t)_timelapse\<close>: an interval of \<open>2^31\<close> or more is
  read as a negative number, and the clamp then stores 0. With the interval at
  3000000000, an adjustment of \<open>+1\<close>, of 0 and of \<open>-1000\<close> each leave the interval 0.
\<close>

theorem adjustTimelapse_large_interval:
  "adjustTimelapse 1 (timecontrol1 3000000000 0 0) = Inr (timecontrol1 0 0 0) \<and>
   adjustTimelapse 0 (timecontrol1 3000000000 0 0) = Inr (timecontrol1 0 0 0) \<and>
   adjustTimelapse (- 1000) (timecontrol1 3000000000 0 0) = Inr (timecontrol1 0 0 0)"
  by (simp add: adjustTimelapse_def timecontrol1_def Let_def)

text \<open>
  Claim C9. \<open>reset()\<close> writes the millisecond and microsecond reference ticks, the event
  count and the last event duration, and nothing else: the interval and the running flag
  are as before.
\<close>

theorem reset_frame:
  "reset ms us t = t\<lparr>pMillis := ms, pMicros := us, count := 0, lastElapsedTime := 0\<rparr> \<and>
   timelapse (reset ms us t) = timelapse t \<and> state (reset ms us t) = state t"
  by (simp add: reset_def Let_def)

end
